theory Spec2Isabelle
  imports Main "HOL-Library.Word" "HOL-Library.AList"
begin

unbundle bit_operations_syntax

section \<open>Strings\<close>

text \<open>
  Python strings are modelled as \<^typ>\<open>string\<close>; a character is read as a code point
  below 256. The case mappings are the ones of \<^verbatim>\<open>str.lower\<close> and \<^verbatim>\<open>str.upper\<close> on
  the ASCII letters; other characters are left as they are.
\<close>

definition lower_chr :: "char \<Rightarrow> char" where
  "lower_chr c = (let n = (of_char c :: nat) in if 65 \<le> n \<and> n \<le> 90 then char_of (n + 32) else c)"


definition lower :: "string \<Rightarrow> string" where
  "lower s = map lower_chr s"


section \<open>Card ID generator\<close>


definition hex_digit :: "nat \<Rightarrow> char" where
  "hex_digit d = ''0123456789abcdef'' ! (d mod 16)"






subsection \<open>The id formats of the specification\<close>

definition is_lower_alnum :: "char \<Rightarrow> bool" where
  "is_lower_alnum c = (let n = (of_char c :: nat) in (97 \<le> n \<and> n \<le> 122) \<or> (48 \<le> n \<and> n \<le> 57))"

definition is_hex :: "char \<Rightarrow> bool" where
  "is_hex c = (let n = (of_char c :: nat) in (48 \<le> n \<and> n \<le> 57) \<or> (97 \<le> n \<and> n \<le> 102))"

text \<open>
  The pattern \<^verbatim>\<open>^[a-z0-9]+-[0-9a-f]{8}$\<close>: neither character class holds the hyphen, so a
  match ends in a hyphen and eight hex digits, after a non-empty run of \<^verbatim>\<open>[a-z0-9]\<close>.
\<close>

definition matches_number_id :: "string \<Rightarrow> bool" where
  "matches_number_id s =
     (let n = length s
      in 10 \<le> n \<and> list_all is_lower_alnum (take (n - 9) s) \<and> s ! (n - 9) = CHR ''-''
         \<and> list_all is_hex (drop (n - 8) s))"


section \<open>Exceptions and the outside world\<close>

text \<open>
  Every exception the code can raise is a value. \<open>ExternalError\<close> stands for a failure
  inside a library call whose body is outside the repository (the network, the image
  library, the background remover). \<^verbatim>\<open>str(e)\<close> is \<open>str_exn\<close>.
\<close>

datatype exn =
    ValueError string
  | Exception string
  | KeyError string
  | TypeError string
  | AttributeError string
  | JSONDecodeError string
  | FileNotFoundError string
  | EOFError
  | ExternalError string


text \<open>
  The multipart upload request sent to the hosting service, and its answer. The body of the
  answer has the shape the service documents,
  \<^verbatim>\<open>{"success": bool, "result": {"id": string, "variants": [string, ...]}, "errors": [...]}\<close>;
  a key that may be missing is an option, \<open>cf_success\<close> is the truth value of
  \<^verbatim>\<open>result.get("success")\<close> and \<open>cf_errors\<close> the text Python prints for
  \<^verbatim>\<open>result.get('errors')\<close>. \<open>json_body = None\<close> is a body that is not JSON.
\<close>

record http_request =
  req_url :: string
  req_authorization :: string
  req_file_name :: string
  req_file_content :: string
  req_file_type :: string

record cf_result =
  cf_id :: "string option"
  cf_variants :: "string list option"

record cf_body =
  cf_success :: bool
  cf_errors :: string
  cf_result :: "cf_result option"

record http_response =
  status_code :: int
  body_text :: string
  json_body :: "cf_body option"

text \<open>
  The state the programs read and write: the process environment, the files (path to
  contents, paths relative to the repository root and compared as text), and the requests
  sent to the network so far, oldest first.
\<close>

record world =
  environ :: "string \<rightharpoonup> string"
  files :: "string \<rightharpoonup> string"
  sent :: "http_request list"

text \<open>
  The library calls whose result the programs depend on: \<^verbatim>\<open>requests.post\<close>, the image
  library (\<^verbatim>\<open>Image.open\<close> on a file's bytes, \<^verbatim>\<open>mode\<close>, \<^verbatim>\<open>convert\<close>, \<^verbatim>\<open>crop\<close>, saving as PNG),
  \<^verbatim>\<open>rembg.remove\<close> and \<^verbatim>\<open>base64.b64encode\<close>. Each is a parameter; one that can raise
  returns a sum.
\<close>

record 'img externals =
  requests_post :: "http_request \<Rightarrow> exn + http_response"
  image_open :: "string \<Rightarrow> exn + 'img"
  image_mode :: "'img \<Rightarrow> string"
  image_convert :: "'img \<Rightarrow> string \<Rightarrow> exn + 'img"
  image_crop :: "'img \<Rightarrow> int \<times> int \<times> int \<times> int \<Rightarrow> exn + 'img"
  image_save_png :: "'img \<Rightarrow> exn + string"
  rembg_remove :: "'img \<Rightarrow> exn + 'img"
  b64encode :: "string \<Rightarrow> string"

section \<open>Cloud image publisher\<close>

definition missing_configuration :: exn where
  "missing_configuration = ValueError ''CLOUDFLARE_ACCOUNT_ID and CLOUDFLARE_API_TOKEN must be set''"

definition upload_request :: "string \<Rightarrow> string \<Rightarrow> string \<Rightarrow> string \<Rightarrow> http_request" where
  "upload_request account_id api_token filename content =
     \<lparr> req_url = ''https://api.cloudflare.com/client/v4/accounts/'' @ account_id @ ''/images/v1'',
       req_authorization = ''Bearer '' @ api_token,
       req_file_name = filename,
       req_file_content = content,
       req_file_type = ''image/png'' \<rparr>"

text \<open>
  The checks all three copies of \<^verbatim>\<open>upload_to_cloudflare\<close> make on the answer: the status,
  the \<^verbatim>\<open>success\<close> flag, and the lookup of \<^verbatim>\<open>result["result"]\<close>.
\<close>

definition upload_result :: "http_response \<Rightarrow> exn + cf_result" where
  "upload_result response =
     (if status_code response \<noteq> 200
      then Inl (Exception (''Cloudflare upload failed: '' @ body_text response))
      else case json_body response of
             None \<Rightarrow> Inl (JSONDecodeError ''Expecting value'')
           | Some result \<Rightarrow>
               if \<not> cf_success result
               then Inl (Exception (''Cloudflare upload failed: '' @ cf_errors result))
               else (case cf_result result of
                       None \<Rightarrow> Inl (KeyError ''result'')
                     | Some res \<Rightarrow> Inr res))"

text \<open>Variant A, the end of the admin server's copy: the fixed template with \<^verbatim>\<open>medium\<close>.\<close>

definition delivery_url_medium :: "world \<Rightarrow> cf_result \<Rightarrow> exn + string" where
  "delivery_url_medium w res =
     (case cf_id res of
        None \<Rightarrow> Inl (KeyError ''id'')
      | Some image_id \<Rightarrow>
          let delivery_hash = (case environ w ''CLOUDFLARE_DELIVERY_HASH'' of
                                 None \<Rightarrow> ''3oZsG34qPq3SIXQhl47vqA''
                               | Some h \<Rightarrow> h)
          in Inr (''https://imagedelivery.net/'' @ delivery_hash @ ''/'' @ image_id @ ''/medium''))"

text \<open>Variant B, the end of the scripts' copies: the first returned variant, or a fallback.\<close>

definition delivery_url_variants :: "string \<Rightarrow> cf_result \<Rightarrow> exn + string" where
  "delivery_url_variants account_id res =
     (case cf_id res of
        None \<Rightarrow> Inl (KeyError ''id'')
      | Some image_id \<Rightarrow>
          (case cf_variants res of
             None \<Rightarrow> Inl (KeyError ''variants'')
           | Some variants \<Rightarrow>
               (case variants of
                  v # _ \<Rightarrow> Inr v
                | [] \<Rightarrow> Inr (''https://imagedelivery.net/'' @ account_id @ ''/'' @ image_id @ ''/public''))))"

text \<open>\<^verbatim>\<open>upload_to_cloudflare(image_bytes, filename)\<close> of the admin server.\<close>

definition upload_to_cloudflare ::
  "'img externals \<Rightarrow> world \<Rightarrow> string \<Rightarrow> string \<Rightarrow> (exn + string) \<times> world" where
  "upload_to_cloudflare ext w image_bytes filename =
     (case (environ w ''CLOUDFLARE_ACCOUNT_ID'', environ w ''CLOUDFLARE_API_TOKEN'') of
        (Some account_id, Some api_token) \<Rightarrow>
          if account_id = [] \<or> api_token = [] then (Inl missing_configuration, w)
          else
            let req = upload_request account_id api_token filename image_bytes;
                w' = w\<lparr>sent := sent w @ [req]\<rparr>
            in (case requests_post ext req of
                  Inl e \<Rightarrow> (Inl e, w')
                | Inr response \<Rightarrow>
                    (case upload_result response of
                       Inl e \<Rightarrow> (Inl e, w')
                     | Inr res \<Rightarrow> (delivery_url_medium w res, w')))
      | _ \<Rightarrow> (Inl missing_configuration, w))"

text \<open>\<^verbatim>\<open>upload_to_cloudflare(image_path, filename)\<close> of the face-card script.\<close>

definition face_upload_to_cloudflare ::
  "'img externals \<Rightarrow> world \<Rightarrow> string \<Rightarrow> string \<Rightarrow> (exn + string) \<times> world" where
  "face_upload_to_cloudflare ext w image_path filename =
     (case (environ w ''CLOUDFLARE_ACCOUNT_ID'', environ w ''CLOUDFLARE_API_TOKEN'') of
        (Some account_id, Some api_token) \<Rightarrow>
          if account_id = [] \<or> api_token = [] then (Inl missing_configuration, w)
          else
            (case files w image_path of
               None \<Rightarrow> (Inl (FileNotFoundError image_path), w)
             | Some f \<Rightarrow>
                 let req = upload_request account_id api_token filename f;
                     w' = w\<lparr>sent := sent w @ [req]\<rparr>
                 in (case requests_post ext req of
                       Inl e \<Rightarrow> (Inl e, w')
                     | Inr response \<Rightarrow>
                         (case upload_result response of
                            Inl e \<Rightarrow> (Inl e, w')
                          | Inr res \<Rightarrow> (delivery_url_variants account_id res, w'))))
      | _ \<Rightarrow> (Inl missing_configuration, w))"

text \<open>\<^verbatim>\<open>upload_to_cloudflare(image, filename)\<close> of the number-card script.\<close>

definition number_upload_to_cloudflare ::
  "'img externals \<Rightarrow> world \<Rightarrow> 'img \<Rightarrow> string \<Rightarrow> (exn + string) \<times> world" where
  "number_upload_to_cloudflare ext w img filename =
     (case (environ w ''CLOUDFLARE_ACCOUNT_ID'', environ w ''CLOUDFLARE_API_TOKEN'') of
        (Some account_id, Some api_token) \<Rightarrow>
          if account_id = [] \<or> api_token = [] then (Inl missing_configuration, w)
          else
            (case image_save_png ext img of
               Inl e \<Rightarrow> (Inl e, w)
             | Inr img_bytes \<Rightarrow>
                 let req = upload_request account_id api_token filename img_bytes;
                     w' = w\<lparr>sent := sent w @ [req]\<rparr>
                 in (case requests_post ext req of
                       Inl e \<Rightarrow> (Inl e, w')
                     | Inr response \<Rightarrow>
                         (case upload_result response of
                            Inl e \<Rightarrow> (Inl e, w')
                          | Inr res \<Rightarrow> (delivery_url_variants account_id res, w'))))
      | _ \<Rightarrow> (Inl missing_configuration, w))"

section \<open>JSON values and the Python operations on them\<close>

text \<open>
  The values \<^verbatim>\<open>json.load\<close> returns and \<^verbatim>\<open>json.dump\<close> accepts: \<^verbatim>\<open>None\<close>, booleans, integers,
  strings, lists and dicts with string keys. A dict is the list of its items in insertion
  order. Floating-point numbers are left out; \<open>Unmodelled\<close> marks the inputs on which the
  program goes on with a value this development has no term for (a float, a code point above
  255). Python does not raise there, and no theorem below concludes it.
\<close>

datatype json =
    JNull
  | JBool bool
  | JInt int
  | JStr string
  | JArr "json list"
  | JObj "(string \<times> json) list"

definition unmodelled :: "string \<Rightarrow> exn" where
  "unmodelled what = ExternalError (''outside the model: '' @ what)"

text \<open>Sequencing of steps that may raise.\<close>

definition and_then :: "exn + 'a \<Rightarrow> ('a \<Rightarrow> exn + 'b) \<Rightarrow> exn + 'b" where
  "and_then m f = (case m of Inl e \<Rightarrow> Inl e | Inr x \<Rightarrow> f x)"

definition type_name :: "json \<Rightarrow> string" where
  "type_name v = (case v of JNull \<Rightarrow> ''NoneType'' | JBool _ \<Rightarrow> ''bool'' | JInt _ \<Rightarrow> ''int''
                  | JStr _ \<Rightarrow> ''str'' | JArr _ \<Rightarrow> ''list'' | JObj _ \<Rightarrow> ''dict'')"

text \<open>\<^verbatim>\<open>x[key]\<close> for a string key.\<close>

definition py_getitem :: "json \<Rightarrow> string \<Rightarrow> exn + json" where
  "py_getitem x key =
     (case x of
        JObj d \<Rightarrow> (case map_of d key of None \<Rightarrow> Inl (KeyError key) | Some v \<Rightarrow> Inr v)
      | JArr _ \<Rightarrow> Inl (TypeError ''list indices must be integers or slices, not str'')
      | JStr _ \<Rightarrow> Inl (TypeError ''string indices must be integers'')
      | _ \<Rightarrow> Inl (TypeError ([CHR 0x27] @ type_name x @ [CHR 0x27] @ '' object is not subscriptable'')))"

text \<open>\<^verbatim>\<open>x[key] = v\<close> for a string key: a present key keeps its place.\<close>

definition py_setitem :: "json \<Rightarrow> string \<Rightarrow> json \<Rightarrow> exn + json" where
  "py_setitem x key v =
     (case x of
        JObj d \<Rightarrow> Inr (JObj (AList.update key v d))
      | JArr _ \<Rightarrow> Inl (TypeError ''list indices must be integers or slices, not str'')
      | _ \<Rightarrow> Inl (TypeError ([CHR 0x27] @ type_name x @ [CHR 0x27]
                              @ '' object does not support item assignment'')))"

text \<open>\<^verbatim>\<open>len(x)\<close>.\<close>

definition py_len :: "json \<Rightarrow> exn + nat" where
  "py_len x =
     (case x of
        JArr xs \<Rightarrow> Inr (length xs)
      | JObj d \<Rightarrow> Inr (length d)
      | JStr s \<Rightarrow> Inr (length s)
      | _ \<Rightarrow> Inl (TypeError (''object of type '' @ [CHR 0x27] @ type_name x @ [CHR 0x27] @ '' has no len()'')))"

text \<open>The values \<^verbatim>\<open>for c in x\<close> runs through.\<close>

definition py_iter :: "json \<Rightarrow> exn + json list" where
  "py_iter x =
     (case x of
        JArr xs \<Rightarrow> Inr xs
      | JObj d \<Rightarrow> Inr (map (\<lambda>kv. JStr (fst kv)) d)
      | JStr s \<Rightarrow> Inr (map (\<lambda>c. JStr [c]) s)
      | _ \<Rightarrow> Inl (TypeError ([CHR 0x27] @ type_name x @ [CHR 0x27] @ '' object is not iterable'')))"





subsection \<open>Whitespace, digits and \<^verbatim>\<open>int()\<close>\<close>



definition is_digit :: "char \<Rightarrow> bool" where
  "is_digit c = (let n = (of_char c :: nat) in 48 \<le> n \<and> n \<le> 57)"

definition digit_val :: "char \<Rightarrow> nat" where
  "digit_val c = of_char c - 48"

definition nat_of_digits :: "string \<Rightarrow> nat" where
  "nat_of_digits ds = foldl (\<lambda>a c. 10 * a + digit_val c) 0 ds"





section \<open>The JSON text of a value\<close>

text \<open>
  \<^verbatim>\<open>json.dump(data, f, indent=2)\<close>: strings are quoted with every character outside
  \<^verbatim>\<open>' '..'~'\<close>, the quote and the backslash escaped; the items of a non-empty list or dict
  stand one per line, indented by two spaces per level and separated by a comma; a key is
  followed by a colon and a space.
\<close>

definition escape_chr :: "char \<Rightarrow> string" where
  "escape_chr c =
     (let n = (of_char c :: nat)
      in if c = CHR 0x22 then [CHR 0x5C, CHR 0x22]
         else if c = CHR 0x5C then [CHR 0x5C, CHR 0x5C]
         else if c = CHR 0x0A then [CHR 0x5C, CHR ''n'']
         else if c = CHR 0x0D then [CHR 0x5C, CHR ''r'']
         else if c = CHR 0x09 then [CHR 0x5C, CHR ''t'']
         else if c = CHR 0x08 then [CHR 0x5C, CHR ''b'']
         else if c = CHR 0x0C then [CHR 0x5C, CHR ''f'']
         else if n < 32 \<or> 126 < n
           then [CHR 0x5C, CHR ''u'', CHR ''0'', CHR ''0'', hex_digit (n div 16), hex_digit (n mod 16)]
         else [c])"

definition quote :: "string \<Rightarrow> string" where
  "quote s = [CHR 0x22] @ concat (map escape_chr s) @ [CHR 0x22]"

fun str_nat :: "nat \<Rightarrow> string" where
  "str_nat n = (if n < 10 then [char_of (48 + n)] else str_nat (n div 10) @ [char_of (48 + n mod 10)])"

declare str_nat.simps [simp del]

definition str_int :: "int \<Rightarrow> string" where
  "str_int i = (if i < 0 then ''-'' @ str_nat (nat (- i)) else str_nat (nat i))"

definition newline_indent :: "nat \<Rightarrow> string" where
  "newline_indent lvl = CHR 0x0A # replicate (2 * lvl) CHR '' ''"

fun join :: "string \<Rightarrow> string list \<Rightarrow> string" where
  "join sep [] = []"
| "join sep [x] = x"
| "join sep (x # y # ys) = x @ sep @ join sep (y # ys)"

fun dumps :: "nat \<Rightarrow> json \<Rightarrow> string" where
  "dumps lvl JNull = ''null''"
| "dumps lvl (JBool b) = (if b then ''true'' else ''false'')"
| "dumps lvl (JInt i) = str_int i"
| "dumps lvl (JStr s) = quote s"
| "dumps lvl (JArr xs) =
     (if xs = [] then ''[]''
      else ''['' @ newline_indent (Suc lvl)
           @ join ('','' @ newline_indent (Suc lvl)) (map (dumps (Suc lvl)) xs)
           @ newline_indent lvl @ '']'')"
| "dumps lvl (JObj d) =
     (if d = [] then ''{}''
      else ''{'' @ newline_indent (Suc lvl)
           @ join ('','' @ newline_indent (Suc lvl))
               (map (\<lambda>kv. quote (fst kv) @ '': '' @ dumps (Suc lvl) (snd kv)) d)
           @ newline_indent lvl @ ''}'')"

definition json_dumps :: "json \<Rightarrow> string" where
  "json_dumps data = dumps 0 data"

section \<open>Reading JSON text\<close>

text \<open>
  \<^verbatim>\<open>json.load\<close>, following the scanner of the standard library: a value is a string, an
  object, an array, one of the three literals or a number; blanks may stand around the
  delimiters; after the value only blanks may follow. The message of a decode error is kept
  without the position Python adds to it.
\<close>

definition is_ws :: "char \<Rightarrow> bool" where
  "is_ws c = (c = CHR '' '' \<or> c = CHR 0x09 \<or> c = CHR 0x0A \<or> c = CHR 0x0D)"

definition skip_ws :: "string \<Rightarrow> string" where
  "skip_ws s = dropWhile is_ws s"

definition hex_val :: "char \<Rightarrow> nat option" where
  "hex_val c =
     (let n = (of_char c :: nat)
      in if 48 \<le> n \<and> n \<le> 57 then Some (n - 48)
         else if 97 \<le> n \<and> n \<le> 102 then Some (n - 87)
         else if 65 \<le> n \<and> n \<le> 70 then Some (n - 55)
         else None)"

definition hex4 :: "char \<Rightarrow> char \<Rightarrow> char \<Rightarrow> char \<Rightarrow> nat option" where
  "hex4 a b c d =
     (case (hex_val a, hex_val b, hex_val c, hex_val d) of
        (Some x, Some y, Some z, Some u) \<Rightarrow> Some (((x * 16 + y) * 16 + z) * 16 + u)
      | _ \<Rightarrow> None)"

definition unescape :: "char \<Rightarrow> char option" where
  "unescape e =
     (if e = CHR 0x22 then Some (CHR 0x22)
      else if e = CHR 0x5C then Some (CHR 0x5C)
      else if e = CHR ''/'' then Some (CHR ''/'')
      else if e = CHR ''b'' then Some (CHR 0x08)
      else if e = CHR ''f'' then Some (CHR 0x0C)
      else if e = CHR ''n'' then Some (CHR 0x0A)
      else if e = CHR ''r'' then Some (CHR 0x0D)
      else if e = CHR ''t'' then Some (CHR 0x09)
      else None)"

definition cons_chr :: "char \<Rightarrow> exn + (string \<times> string) \<Rightarrow> exn + (string \<times> string)" where
  "cons_chr c m = (case m of Inl e \<Rightarrow> Inl e | Inr (s, rest) \<Rightarrow> Inr (c # s, rest))"

text \<open>The body of a string, read from behind its opening quote up to the closing one.\<close>

fun scanstring :: "string \<Rightarrow> exn + (string \<times> string)" where
  "scanstring [] = Inl (JSONDecodeError ''Unterminated string starting at'')"
| "scanstring (c # cs) =
     (if c = CHR 0x22 then Inr ([], cs)
      else if c = CHR 0x5C then
        (case cs of
           [] \<Rightarrow> Inl (JSONDecodeError ''Unterminated string starting at'')
         | e # cs' \<Rightarrow>
             if e = CHR ''u'' then
               (case cs' of
                  h1 # h2 # h3 # h4 # rest \<Rightarrow>
                    (case hex4 h1 h2 h3 h4 of
                       None \<Rightarrow> Inl (JSONDecodeError ''Invalid unicode escape'')
                     | Some n \<Rightarrow>
                         if n < 256 then cons_chr (char_of n) (scanstring rest)
                         else Inl (unmodelled ''code point above 255''))
                | _ \<Rightarrow> Inl (JSONDecodeError ''Invalid unicode escape''))
             else
               (case unescape e of
                  None \<Rightarrow> Inl (JSONDecodeError ''Invalid escape'')
                | Some ch \<Rightarrow> cons_chr ch (scanstring cs')))
      else if (of_char c :: nat) < 32 then Inl (JSONDecodeError ''Invalid control character at'')
      else cons_chr c (scanstring cs))"

definition expecting_value :: exn where
  "expecting_value = JSONDecodeError ''Expecting value''"

text \<open>
  What follows the integer part decides between an integer and a float: a point and a digit,
  or an exponent mark and its digits.
\<close>

definition is_float_tail :: "string \<Rightarrow> bool" where
  "is_float_tail r =
     (case r of
        c # d # ds \<Rightarrow>
          (c = CHR ''.'' \<and> is_digit d)
          \<or> ((c = CHR ''e'' \<or> c = CHR ''E'')
              \<and> (is_digit d \<or> ((d = CHR ''+'' \<or> d = CHR ''-'') \<and> ds \<noteq> [] \<and> is_digit (hd ds))))
      | _ \<Rightarrow> False)"

definition scan_number :: "string \<Rightarrow> exn + (json \<times> string)" where
  "scan_number s =
     (if take 3 s = ''NaN'' \<or> take 8 s = ''Infinity'' \<or> take 9 s = ''-Infinity''
      then Inl (unmodelled ''float'')
      else
        let neg = (s \<noteq> [] \<and> hd s = CHR ''-'');
            s1 = (if neg then tl s else s)
        in case s1 of
             [] \<Rightarrow> Inl expecting_value
           | d # ds \<Rightarrow>
               if \<not> is_digit d then Inl expecting_value
               else
                 let ip = (if d = CHR ''0'' then [d] else d # takeWhile is_digit ds);
                     rest = (if d = CHR ''0'' then ds else dropWhile is_digit ds)
                 in if is_float_tail rest then Inl (unmodelled ''float'')
                    else Inr (JInt (if neg then - int (nat_of_digits ip) else int (nat_of_digits ip)), rest))"

definition out_of_fuel :: exn where
  "out_of_fuel = unmodelled ''nesting deeper than the text is long''"

text \<open>
  The loop of an array, entered at its first value, and the loop of an object, entered behind
  the opening quote of its first key. \<open>p\<close> reads one value; \<open>k\<close> bounds the rounds.
\<close>

fun parse_elems ::
  "(string \<Rightarrow> exn + (json \<times> string)) \<Rightarrow> nat \<Rightarrow> string \<Rightarrow> exn + (json list \<times> string)" where
  "parse_elems p 0 s = Inl out_of_fuel"
| "parse_elems p (Suc k) s =
     (case p s of
        Inl e \<Rightarrow> Inl e
      | Inr (v, r) \<Rightarrow>
          (case skip_ws r of
             [] \<Rightarrow> Inl (JSONDecodeError ''Expecting , delimiter'')
           | c # r' \<Rightarrow>
               if c = CHR '']'' then Inr ([v], r')
               else if c = CHR '','' then
                 (case parse_elems p k (skip_ws r') of
                    Inl e \<Rightarrow> Inl e
                  | Inr (vs, r'') \<Rightarrow> Inr (v # vs, r''))
               else Inl (JSONDecodeError ''Expecting , delimiter'')))"

fun parse_members ::
  "(string \<Rightarrow> exn + (json \<times> string)) \<Rightarrow> nat \<Rightarrow> string \<Rightarrow> exn + ((string \<times> json) list \<times> string)" where
  "parse_members p 0 s = Inl out_of_fuel"
| "parse_members p (Suc k) s =
     (case scanstring s of
        Inl e \<Rightarrow> Inl e
      | Inr (key, r) \<Rightarrow>
          (case skip_ws r of
             [] \<Rightarrow> Inl (JSONDecodeError ''Expecting : delimiter'')
           | c # r1 \<Rightarrow>
               if c \<noteq> CHR '':'' then Inl (JSONDecodeError ''Expecting : delimiter'')
               else
                 (case p (skip_ws r1) of
                    Inl e \<Rightarrow> Inl e
                  | Inr (v, r2) \<Rightarrow>
                      (case skip_ws r2 of
                         [] \<Rightarrow> Inl (JSONDecodeError ''Expecting , delimiter'')
                       | c2 # r3 \<Rightarrow>
                           if c2 = CHR ''}'' then Inr ([(key, v)], r3)
                           else if c2 = CHR '','' then
                             (case skip_ws r3 of
                                [] \<Rightarrow> Inl (JSONDecodeError ''Expecting property name enclosed in double quotes'')
                              | q # r4 \<Rightarrow>
                                  if q = CHR 0x22 then
                                    (case parse_members p k r4 of
                                       Inl e \<Rightarrow> Inl e
                                     | Inr (kvs, r5) \<Rightarrow> Inr ((key, v) # kvs, r5))
                                  else Inl (JSONDecodeError ''Expecting property name enclosed in double quotes''))
                           else Inl (JSONDecodeError ''Expecting , delimiter'')))))"

text \<open>The dict of a list of pairs: a repeated key keeps its first place and its last value.\<close>

definition dict_of :: "(string \<times> json) list \<Rightarrow> (string \<times> json) list" where
  "dict_of pairs = foldl (\<lambda>d kv. AList.update (fst kv) (snd kv) d) [] pairs"

primrec parse_value :: "nat \<Rightarrow> string \<Rightarrow> exn + (json \<times> string)" where
  "parse_value 0 s = Inl out_of_fuel"
| "parse_value (Suc n) s =
     (case s of
        [] \<Rightarrow> Inl expecting_value
      | c # cs \<Rightarrow>
          if c = CHR 0x22 then
            (case scanstring cs of
               Inl e \<Rightarrow> Inl e
             | Inr (str, r) \<Rightarrow> Inr (JStr str, r))
          else if c = CHR ''{'' then
            (case skip_ws cs of
               [] \<Rightarrow> Inl (JSONDecodeError ''Expecting property name enclosed in double quotes'')
             | q # r \<Rightarrow>
                 if q = CHR ''}'' then Inr (JObj [], r)
                 else if q = CHR 0x22 then
                   (case parse_members (parse_value n) n r of
                      Inl e \<Rightarrow> Inl e
                    | Inr (kvs, r') \<Rightarrow> Inr (JObj (dict_of kvs), r'))
                 else Inl (JSONDecodeError ''Expecting property name enclosed in double quotes''))
          else if c = CHR ''['' then
            (case skip_ws cs of
               [] \<Rightarrow> Inl expecting_value
             | q # r \<Rightarrow>
                 if q = CHR '']'' then Inr (JArr [], r)
                 else
                   (case parse_elems (parse_value n) n (q # r) of
                      Inl e \<Rightarrow> Inl e
                    | Inr (vs, r') \<Rightarrow> Inr (JArr vs, r')))
          else if take 4 s = ''null'' then Inr (JNull, drop 4 s)
          else if take 4 s = ''true'' then Inr (JBool True, drop 4 s)
          else if take 5 s = ''false'' then Inr (JBool False, drop 5 s)
          else scan_number s)"

definition json_loads :: "string \<Rightarrow> exn + json" where
  "json_loads s =
     (case parse_value (Suc (length s)) (skip_ws s) of
        Inl e \<Rightarrow> Inl e
      | Inr (v, rest) \<Rightarrow>
          if skip_ws rest = [] then Inr v else Inl (JSONDecodeError ''Extra data''))"

section \<open>Card catalog store\<close>

text \<open>
  The fixed paths, relative to the root of the repository. A path names a file; directories
  and the ways two texts can name one file are not modelled.
\<close>

definition DATA_FILE :: string where
  "DATA_FILE = ''data/cards.json''"




definition load_cards :: "world \<Rightarrow> exn + json" where
  "load_cards w =
     (case files w DATA_FILE of
        Some f \<Rightarrow> json_loads f
      | None \<Rightarrow> Inr (JObj [(''cards'', JArr [])]))"

definition save_cards :: "world \<Rightarrow> json \<Rightarrow> world" where
  "save_cards w data = w\<lparr>files := (files w)(DATA_FILE \<mapsto> json_dumps data)\<rparr>"

text \<open>
  The record of a new card, and \<^verbatim>\<open>cards_data["cards"].append(new_card)\<close>: the list inside
  the dict grows in place.
\<close>

definition new_card :: "string \<Rightarrow> string \<Rightarrow> string \<Rightarrow> string \<Rightarrow> json" where
  "new_card card_id word image_url card_type =
     JObj [(''id'', JStr card_id), (''word'', JStr word), (''imageUrl'', JStr image_url),
           (''type'', JStr card_type)]"


text \<open>
  The card record and the catalog of the data model, as the values the programs build:
  \<^verbatim>\<open>{"cards": [{"id": ..., "word": ..., "imageUrl": ..., "type": ...}, ...]}\<close>.
\<close>

record card_record =
  rec_id :: string
  rec_word :: string
  rec_image_url :: string
  rec_type :: string

definition card_json :: "card_record \<Rightarrow> json" where
  "card_json c = new_card (rec_id c) (rec_word c) (rec_image_url c) (rec_type c)"

definition catalog_json :: "card_record list \<Rightarrow> json" where
  "catalog_json cs = JObj [(''cards'', JArr (map card_json cs))]"

text \<open>
  A value as Python can hold it: the keys of a dict are distinct. \<open>weight\<close> counts the nodes
  of a value; it bounds the depth of the value and the length of each list in it.
\<close>

fun wf_json :: "json \<Rightarrow> bool" where
  "wf_json (JArr xs) = (\<forall>x \<in> set xs. wf_json x)"
| "wf_json (JObj d) = (distinct (map fst d) \<and> (\<forall>kv \<in> set d. wf_json (snd kv)))"
| "wf_json _ = True"

fun weight :: "json \<Rightarrow> nat" where
  "weight (JArr xs) = Suc (sum_list (map weight xs))"
| "weight (JObj d) = Suc (sum_list (map (\<lambda>kv. weight (snd kv)) d))"
| "weight _ = 1"

section \<open>Image processing pipeline\<close>



section \<open>Admin HTTP server\<close>

text \<open>
  A handler returns the JSON body and the status of its answer, or the exception it lets
  escape, and the world it leaves behind.
\<close>

type_synonym response = "json \<times> nat"

definition error_response :: "string \<Rightarrow> nat \<Rightarrow> response" where
  "error_response message code = (JObj [(''error'', JStr message)], code)"






text \<open>The list comprehension of \<^verbatim>\<open>delete_card\<close>: the records whose id is not \<open>card_id\<close>.\<close>

fun keep_others :: "string \<Rightarrow> json list \<Rightarrow> exn + json list" where
  "keep_others card_id [] = Inr []"
| "keep_others card_id (c # cs) =
     and_then (py_getitem c ''id'') (\<lambda>i.
     and_then (keep_others card_id cs) (\<lambda>rest.
     Inr (if i \<noteq> JStr card_id then c # rest else rest)))"

text \<open>\<^verbatim>\<open>DELETE /api/delete-card/<card_id>\<close>.\<close>

definition delete_card :: "world \<Rightarrow> string \<Rightarrow> (exn + response) \<times> world" where
  "delete_card w card_id =
     (case and_then (load_cards w) (\<lambda>cards_data.
           and_then (and_then (py_getitem cards_data ''cards'') py_len) (\<lambda>original_count.
           and_then (and_then (py_getitem cards_data ''cards'') py_iter) (\<lambda>cards.
           and_then (keep_others card_id cards) (\<lambda>kept.
           and_then (py_setitem cards_data ''cards'' (JArr kept)) (\<lambda>cards_data'.
           and_then (and_then (py_getitem cards_data' ''cards'') py_len) (\<lambda>new_count.
           Inr (cards_data', original_count, new_count))))))) of
        Inl e \<Rightarrow> (Inl e, w)
      | Inr (cards_data', original_count, new_count) \<Rightarrow>
          if new_count = original_count
          then (Inr (error_response ''Card not found'' 404), w)
          else (Inr (JObj [(''success'', JBool True), (''totalCards'', JInt (int new_count))], 200),
                save_cards w cards_data'))"

section \<open>Command-line scripts\<close>




section \<open>Example inputs\<close>

text \<open>
  A hosting service that answers every upload with success, image id \<^verbatim>\<open>abc\<close> and the given
  variants; an image library that takes an image to be its bytes; and a configured world
  holding one source image.
\<close>

definition example_response :: "string list \<Rightarrow> http_response" where
  "example_response vs =
     \<lparr> status_code = 200, body_text = '''',
       json_body = Some \<lparr> cf_success = True, cf_errors = ''[]'',
                          cf_result = Some \<lparr> cf_id = Some ''abc'', cf_variants = Some vs \<rparr> \<rparr> \<rparr>"

definition example_externals :: "string list \<Rightarrow> string externals" where
  "example_externals vs =
     \<lparr> requests_post = (\<lambda>_. Inr (example_response vs)),
       image_open = (\<lambda>b. Inr b),
       image_mode = (\<lambda>_. ''RGB''),
       image_convert = (\<lambda>i _. Inr i),
       image_crop = (\<lambda>i _. Inr i),
       image_save_png = (\<lambda>i. Inr i),
       rembg_remove = (\<lambda>i. Inr i),
       b64encode = (\<lambda>s. s) \<rparr>"

definition example_environ :: "string \<rightharpoonup> string" where
  "example_environ = [''CLOUDFLARE_ACCOUNT_ID'' \<mapsto> ''acct'', ''CLOUDFLARE_API_TOKEN'' \<mapsto> ''tok'']"

definition example_world :: world where
  "example_world = \<lparr> environ = example_environ, files = [''uploads/king.png'' \<mapsto> ''PNG''], sent = [] \<rparr>"

definition unconfigured_world :: world where
  "unconfigured_world = \<lparr> environ = Map.empty, files = [''uploads/king.png'' \<mapsto> ''PNG''], sent = [] \<rparr>"

text \<open>
  A catalog of three cards, the world whose catalog file holds it, a world with one temporary
  upload, and requests to the admin server.
\<close>

definition example_catalog :: json where
  "example_catalog =
     JObj [(''cards'', JArr [new_card ''dog-deadbeef'' ''DOG'' ''https://img.example/1/public'' ''number'',
                             new_card ''face-king-00000000'' ''KING'' ''https://img.example/2/public'' ''face'',
                             new_card ''cat-0badcafe'' ''CAT'' ''https://img.example/3/public'' ''number''])]"

definition reduced_catalog :: json where
  "reduced_catalog =
     JObj [(''cards'', JArr [new_card ''dog-deadbeef'' ''DOG'' ''https://img.example/1/public'' ''number'',
                             new_card ''cat-0badcafe'' ''CAT'' ''https://img.example/3/public'' ''number''])]"

definition catalog_world :: world where
  "catalog_world = save_cards example_world example_catalog"





section \<open>Verified properties\<close>

subsection \<open>Card ID generator\<close>







lemma matches_number_id_append:
  assumes "length h = 8" "list_all is_hex h"
  shows "matches_number_id (w @ ''-'' @ h) \<longleftrightarrow> w \<noteq> [] \<and> list_all is_lower_alnum w"
  using assms by (cases w) (simp_all add: matches_number_id_def Let_def nth_append)


text \<open>
  The executable test \<^const>\<open>matches_number_id\<close> is the pattern: a string passes exactly
  when it splits into a non-empty run of \<^verbatim>\<open>[a-z0-9]\<close>, a hyphen and eight hex digits.
\<close>

lemma matches_number_id_iff:
  "matches_number_id s \<longleftrightarrow>
     (\<exists>w h. s = w @ ''-'' @ h \<and> w \<noteq> [] \<and> list_all is_lower_alnum w \<and> length h = 8 \<and> list_all is_hex h)"
proof
  assume m: "matches_number_id s"
  let ?n = "length s"
  from m have n: "10 \<le> ?n" and w: "list_all is_lower_alnum (take (?n - 9) s)"
    and d: "s ! (?n - 9) = CHR ''-''" and h: "list_all is_hex (drop (?n - 8) s)"
    by (simp_all add: matches_number_id_def Let_def)
  from n have "?n - 9 < ?n" by simp
  from id_take_nth_drop [OF this] have "s = take (?n - 9) s @ s ! (?n - 9) # drop (Suc (?n - 9)) s" .
  moreover from n have "Suc (?n - 9) = ?n - 8" by simp
  ultimately have "s = take (?n - 9) s @ ''-'' @ drop (?n - 8) s" using d by simp
  moreover from n have "take (?n - 9) s \<noteq> []" by auto
  moreover from n have "length (drop (?n - 8) s) = 8" by simp
  ultimately show "\<exists>w h. s = w @ ''-'' @ h \<and> w \<noteq> [] \<and> list_all is_lower_alnum w \<and> length h = 8 \<and> list_all is_hex h"
    using w h by blast
next
  assume "\<exists>w h. s = w @ ''-'' @ h \<and> w \<noteq> [] \<and> list_all is_lower_alnum w \<and> length h = 8 \<and> list_all is_hex h"
  then show "matches_number_id s" using matches_number_id_append by blast
qed

text \<open>Lower-casing a string of ASCII letters and digits gives a string over \<^verbatim>\<open>[a-z0-9]\<close>.\<close>

lemma lower_alnum:
  assumes "list_all (\<lambda>c. (65 \<le> (of_char c :: nat) \<and> (of_char c :: nat) \<le> 90) \<or> is_lower_alnum c) word"
  shows "list_all is_lower_alnum (lower word)"
  using assms by (auto simp add: list_all_iff lower_def is_lower_alnum_def lower_chr_def Let_def)








subsection \<open>Cloud image publisher\<close>

text \<open>
  C2: in both scripts, when the upload succeeds (status 200, \<^verbatim>\<open>success\<close> true, a result with
  an id and a variants list), \<^verbatim>\<open>upload_to_cloudflare\<close> returns the first variant if there is
  one, and otherwise \<^verbatim>\<open>https://imagedelivery.net/<account_id>/<image_id>/public\<close>, built from
  the account identifier.
\<close>

theorem variant_b_url:
  assumes "environ w ''CLOUDFLARE_ACCOUNT_ID'' = Some account_id" and "account_id \<noteq> []"
    and "environ w ''CLOUDFLARE_API_TOKEN'' = Some api_token" and "api_token \<noteq> []"
    and "status_code response = 200" and "json_body response = Some body" and "cf_success body"
    and "cf_result body = Some res" and "cf_id res = Some image_id"
    and "cf_variants res = Some variants"
  shows "(files w image_path = Some f
            \<and> requests_post ext (upload_request account_id api_token filename f) = Inr response
          \<longrightarrow> fst (face_upload_to_cloudflare ext w image_path filename)
                = Inr (if variants \<noteq> [] then hd variants
                       else ''https://imagedelivery.net/'' @ account_id @ ''/'' @ image_id @ ''/public''))
       \<and> (image_save_png ext img = Inr img_bytes
            \<and> requests_post ext (upload_request account_id api_token filename img_bytes) = Inr response
          \<longrightarrow> fst (number_upload_to_cloudflare ext w img filename)
                = Inr (if variants \<noteq> [] then hd variants
                       else ''https://imagedelivery.net/'' @ account_id @ ''/'' @ image_id @ ''/public''))"
  using assms
  by (simp add: face_upload_to_cloudflare_def number_upload_to_cloudflare_def Let_def
        upload_result_def delivery_url_variants_def split: list.splits)

theorem variant_b_url_witness:
  "fst (face_upload_to_cloudflare (example_externals [''https://img.example/abc/public''])
          example_world ''uploads/king.png'' ''face-king-00000000.png'')
     = Inr ''https://img.example/abc/public''
   \<and> fst (number_upload_to_cloudflare (example_externals [''https://img.example/abc/public''])
          example_world ''PNG'' ''dog-deadbeef.png'')
     = Inr ''https://img.example/abc/public''
   \<and> fst (face_upload_to_cloudflare (example_externals [])
          example_world ''uploads/king.png'' ''face-king-00000000.png'')
     = Inr ''https://imagedelivery.net/acct/abc/public''
   \<and> fst (number_upload_to_cloudflare (example_externals [])
          example_world ''PNG'' ''dog-deadbeef.png'')
     = Inr ''https://imagedelivery.net/acct/abc/public''"
proof -
  have e: "environ example_world ''CLOUDFLARE_ACCOUNT_ID'' = Some ''acct''" "''acct'' \<noteq> []"
    "environ example_world ''CLOUDFLARE_API_TOKEN'' = Some ''tok''" "''tok'' \<noteq> []"
    by (simp_all add: example_world_def example_environ_def)
  have r: "status_code (example_response vs) = 200"
    "json_body (example_response vs)
       = Some \<lparr> cf_success = True, cf_errors = ''[]'',
                  cf_result = Some \<lparr> cf_id = Some ''abc'', cf_variants = Some vs \<rparr> \<rparr>"
    "cf_success \<lparr> cf_success = True, cf_errors = ''[]'',
                  cf_result = Some \<lparr> cf_id = Some ''abc'', cf_variants = Some vs \<rparr> \<rparr>"
    "cf_result \<lparr> cf_success = True, cf_errors = ''[]'',
                  cf_result = Some \<lparr> cf_id = Some ''abc'', cf_variants = Some vs \<rparr> \<rparr>
       = Some \<lparr> cf_id = Some ''abc'', cf_variants = Some vs \<rparr>"
    "cf_id \<lparr> cf_id = Some ''abc'', cf_variants = Some vs \<rparr> = Some ''abc''"
    "cf_variants \<lparr> cf_id = Some ''abc'', cf_variants = Some vs \<rparr> = Some vs" for vs
    by (simp_all add: example_response_def)
  have f: "files example_world ''uploads/king.png'' = Some ''PNG''"
    by (simp add: example_world_def)
  have p: "requests_post (example_externals vs) q = Inr (example_response vs)" for vs q
    by (simp add: example_externals_def)
  have s: "image_save_png (example_externals vs) ''PNG'' = Inr ''PNG''" for vs
    by (simp add: example_externals_def)
  note T = variant_b_url [OF e r, where ext = "example_externals vs" and image_path = "''uploads/king.png''"
      and f = "''PNG''" and img = "''PNG''" and img_bytes = "''PNG''" for vs]
  have a: "fst (face_upload_to_cloudflare (example_externals vs)
             example_world ''uploads/king.png'' ''face-king-00000000.png'')
           = Inr (if vs \<noteq> [] then hd vs
                  else ''https://imagedelivery.net/'' @ ''acct'' @ ''/'' @ ''abc'' @ ''/public'')" for vs
    using T [of vs "''face-king-00000000.png''"] f p [of vs] by simp
  have b: "fst (number_upload_to_cloudflare (example_externals vs) example_world ''PNG'' ''dog-deadbeef.png'')
           = Inr (if vs \<noteq> [] then hd vs
                  else ''https://imagedelivery.net/'' @ ''acct'' @ ''/'' @ ''abc'' @ ''/public'')" for vs
    using T [of vs "''dog-deadbeef.png''"] s [of vs] p [of vs] by simp
  from a [of "[''https://img.example/abc/public'']"] a [of "[]"]
    b [of "[''https://img.example/abc/public'']"] b [of "[]"]
  show ?thesis by simp
qed

text \<open>
  C4: when the account identifier or the API credential is absent from the environment,
  every copy of \<^verbatim>\<open>upload_to_cloudflare\<close> raises the configuration error and leaves the world
  as it was: no request has been sent.
\<close>

theorem missing_configuration_before_network:
  assumes "environ w ''CLOUDFLARE_ACCOUNT_ID'' = None \<or> environ w ''CLOUDFLARE_API_TOKEN'' = None"
  shows "upload_to_cloudflare ext w image_bytes filename = (Inl missing_configuration, w)
       \<and> face_upload_to_cloudflare ext w image_path filename = (Inl missing_configuration, w)
       \<and> number_upload_to_cloudflare ext w img filename = (Inl missing_configuration, w)
       \<and> sent (snd (upload_to_cloudflare ext w image_bytes filename)) = sent w
       \<and> sent (snd (face_upload_to_cloudflare ext w image_path filename)) = sent w
       \<and> sent (snd (number_upload_to_cloudflare ext w img filename)) = sent w"
  using assms
  by (auto simp add: upload_to_cloudflare_def face_upload_to_cloudflare_def
        number_upload_to_cloudflare_def split: option.splits)

theorem missing_configuration_before_network_witness:
  "(environ unconfigured_world ''CLOUDFLARE_ACCOUNT_ID'' = None
      \<or> environ unconfigured_world ''CLOUDFLARE_API_TOKEN'' = None)
   \<and> upload_to_cloudflare (example_externals []) unconfigured_world ''PNG'' ''dog-deadbeef.png''
       = (Inl (ValueError ''CLOUDFLARE_ACCOUNT_ID and CLOUDFLARE_API_TOKEN must be set''),
          unconfigured_world)
   \<and> sent (snd (face_upload_to_cloudflare (example_externals []) unconfigured_world
                   ''uploads/king.png'' ''face-king-00000000.png'')) = []"
proof -
  have h: "environ unconfigured_world ''CLOUDFLARE_ACCOUNT_ID'' = None
      \<or> environ unconfigured_world ''CLOUDFLARE_API_TOKEN'' = None"
    by (simp add: unconfigured_world_def)
  have s: "sent unconfigured_world = []"
    by (simp add: unconfigured_world_def)
  from missing_configuration_before_network [OF h, of "example_externals []" "''PNG''"
      "''dog-deadbeef.png''" "''uploads/king.png''" "''PNG''"]
    missing_configuration_before_network [OF h, of "example_externals []" "''PNG''"
      "''face-king-00000000.png''" "''uploads/king.png''" "''PNG''"]
  show ?thesis using h s by (simp add: missing_configuration_def)
qed

text \<open>
  C7: when the upload succeeds, the admin server's \<^verbatim>\<open>upload_to_cloudflare\<close> returns
  \<^verbatim>\<open>https://imagedelivery.net/<delivery-hash>/<image-id>/medium\<close>, where the delivery hash is
  the value of \<^verbatim>\<open>CLOUDFLARE_DELIVERY_HASH\<close>, or \<^verbatim>\<open>3oZsG34qPq3SIXQhl47vqA\<close> when it is unset;
  the variants of the answer play no part.
\<close>

theorem variant_a_url:
  assumes "environ w ''CLOUDFLARE_ACCOUNT_ID'' = Some account_id" and "account_id \<noteq> []"
    and "environ w ''CLOUDFLARE_API_TOKEN'' = Some api_token" and "api_token \<noteq> []"
    and "status_code response = 200" and "json_body response = Some body" and "cf_success body"
    and "cf_result body = Some res" and "cf_id res = Some image_id"
    and "requests_post ext (upload_request account_id api_token filename image_bytes) = Inr response"
  shows "fst (upload_to_cloudflare ext w image_bytes filename)
           = Inr (''https://imagedelivery.net/''
                  @ (case environ w ''CLOUDFLARE_DELIVERY_HASH'' of
                       None \<Rightarrow> ''3oZsG34qPq3SIXQhl47vqA'' | Some h \<Rightarrow> h)
                  @ ''/'' @ image_id @ ''/medium'')"
  using assms
  by (simp add: upload_to_cloudflare_def Let_def upload_result_def delivery_url_medium_def)

theorem variant_a_url_witness:
  "fst (upload_to_cloudflare (example_externals [''https://img.example/abc/public''])
          example_world ''PNG'' ''dog-deadbeef.png'')
     = Inr ''https://imagedelivery.net/3oZsG34qPq3SIXQhl47vqA/abc/medium''
   \<and> fst (upload_to_cloudflare (example_externals [])
          (example_world\<lparr>environ := example_environ(''CLOUDFLARE_DELIVERY_HASH'' \<mapsto> ''h4sh'')\<rparr>)
          ''PNG'' ''dog-deadbeef.png'')
     = Inr ''https://imagedelivery.net/h4sh/abc/medium''"
proof -
  have a: "fst (upload_to_cloudflare (example_externals [''https://img.example/abc/public''])
          example_world ''PNG'' ''dog-deadbeef.png'')
     = Inr (''https://imagedelivery.net/''
                  @ (case environ example_world ''CLOUDFLARE_DELIVERY_HASH'' of
                       None \<Rightarrow> ''3oZsG34qPq3SIXQhl47vqA'' | Some h \<Rightarrow> h)
                  @ ''/'' @ ''abc'' @ ''/medium'')"
    by (rule variant_a_url [where account_id = "''acct''" and api_token = "''tok''"
          and response = "example_response [''https://img.example/abc/public'']"
          and body = "\<lparr> cf_success = True, cf_errors = ''[]'',
                          cf_result = Some \<lparr> cf_id = Some ''abc'',
                            cf_variants = Some [''https://img.example/abc/public''] \<rparr> \<rparr>"
          and res = "\<lparr> cf_id = Some ''abc'', cf_variants = Some [''https://img.example/abc/public''] \<rparr>"])
       (simp_all add: example_world_def example_environ_def example_externals_def example_response_def)
  have b: "fst (upload_to_cloudflare (example_externals [])
          (example_world\<lparr>environ := example_environ(''CLOUDFLARE_DELIVERY_HASH'' \<mapsto> ''h4sh'')\<rparr>)
          ''PNG'' ''dog-deadbeef.png'')
     = Inr (''https://imagedelivery.net/''
                  @ (case environ (example_world\<lparr>environ := example_environ(''CLOUDFLARE_DELIVERY_HASH'' \<mapsto> ''h4sh'')\<rparr>)
                            ''CLOUDFLARE_DELIVERY_HASH'' of
                       None \<Rightarrow> ''3oZsG34qPq3SIXQhl47vqA'' | Some h \<Rightarrow> h)
                  @ ''/'' @ ''abc'' @ ''/medium'')"
    by (rule variant_a_url [where account_id = "''acct''" and api_token = "''tok''"
          and response = "example_response []"
          and body = "\<lparr> cf_success = True, cf_errors = ''[]'',
                          cf_result = Some \<lparr> cf_id = Some ''abc'', cf_variants = Some [] \<rparr> \<rparr>"
          and res = "\<lparr> cf_id = Some ''abc'', cf_variants = Some [] \<rparr>"])
       (simp_all add: example_world_def example_environ_def example_externals_def example_response_def)
  from a b show ?thesis by (simp add: example_world_def example_environ_def)
qed

subsection \<open>Steps that may raise\<close>

lemma and_then_Inr [simp]: "and_then (Inr x) f = f x"
  by (simp add: and_then_def)

lemma and_then_Inl [simp]: "and_then (Inl e) f = Inl e"
  by (simp add: and_then_def)

subsection \<open>Delete endpoint\<close>

lemma keep_others_filter:
  assumes "\<forall>c \<in> set cs. \<exists>i. py_getitem c ''id'' = Inr i"
  shows "keep_others card_id cs = Inr (filter (\<lambda>c. py_getitem c ''id'' \<noteq> Inr (JStr card_id)) cs)"
  using assms
proof (induction cs)
  case Nil
  then show ?case by simp
next
  case (Cons c cs)
  then obtain i where i: "py_getitem c ''id'' = Inr i" by auto
  from Cons have "keep_others card_id cs = Inr (filter (\<lambda>c. py_getitem c ''id'' \<noteq> Inr (JStr card_id)) cs)"
    by simp
  with i show ?case by simp
qed

lemma delete_card_run:
  assumes "load_cards w = Inr (JObj d)" and "map_of d ''cards'' = Some (JArr cards)"
    and "keep_others card_id cards = Inr kept"
  shows "delete_card w card_id =
      (if length kept = length cards
       then (Inr (error_response ''Card not found'' 404), w)
       else (Inr (JObj [(''success'', JBool True), (''totalCards'', JInt (int (length kept)))], 200),
             save_cards w (JObj (AList.update ''cards'' (JArr kept) d))))"
proof -
  have g: "py_getitem (JObj d) ''cards'' = Inr (JArr cards)"
    using assms(2) by (simp add: py_getitem_def)
  have g': "py_getitem (JObj (AList.update ''cards'' (JArr kept) d)) ''cards'' = Inr (JArr kept)"
    by (simp add: py_getitem_def update_conv')
  have s: "py_setitem (JObj d) ''cards'' (JArr kept) = Inr (JObj (AList.update ''cards'' (JArr kept) d))"
    by (simp add: py_setitem_def)
  have chain: "and_then (load_cards w) (\<lambda>cards_data.
           and_then (and_then (py_getitem cards_data ''cards'') py_len) (\<lambda>original_count.
           and_then (and_then (py_getitem cards_data ''cards'') py_iter) (\<lambda>cards.
           and_then (keep_others card_id cards) (\<lambda>kept.
           and_then (py_setitem cards_data ''cards'' (JArr kept)) (\<lambda>cards_data'.
           and_then (and_then (py_getitem cards_data' ''cards'') py_len) (\<lambda>new_count.
           Inr (cards_data', original_count, new_count)))))))
        = Inr (JObj (AList.update ''cards'' (JArr kept) d), length cards, length kept)"
    by (simp add: assms(1) assms(3) g g' s py_len_def py_iter_def)
  show ?thesis
    unfolding delete_card_def chain by simp
qed

lemma load_catalog_world: "load_cards catalog_world = Inr example_catalog"
  by code_simp

text \<open>
  C3: let the catalog file hold a dict whose \<^verbatim>\<open>cards\<close> entry is a list of records that each
  have an \<^verbatim>\<open>id\<close>. If some record has the given id, \<^verbatim>\<open>delete_card\<close> answers success with
  \<^verbatim>\<open>totalCards\<close> the number of records left, and writes to the catalog file the catalog
  without every record of that id, which are fewer than before. If no record has the id, it
  answers 404 and leaves the world, the catalog file included, as it was.
\<close>

theorem delete_card_semantics:
  assumes "load_cards w = Inr (JObj d)" and "map_of d ''cards'' = Some (JArr cards)"
    and "\<forall>c \<in> set cards. \<exists>i. py_getitem c ''id'' = Inr i"
  shows "((\<exists>c \<in> set cards. py_getitem c ''id'' = Inr (JStr card_id)) \<longrightarrow>
            delete_card w card_id
              = (Inr (JObj [(''success'', JBool True),
                            (''totalCards'', JInt (int (length (filter (\<lambda>c. py_getitem c ''id'' \<noteq> Inr (JStr card_id)) cards))))], 200),
                 w\<lparr>files := (files w)(DATA_FILE \<mapsto>
                      json_dumps (JObj (AList.update ''cards''
                        (JArr (filter (\<lambda>c. py_getitem c ''id'' \<noteq> Inr (JStr card_id)) cards)) d)))\<rparr>)
            \<and> length (filter (\<lambda>c. py_getitem c ''id'' \<noteq> Inr (JStr card_id)) cards) < length cards)
       \<and> ((\<forall>c \<in> set cards. py_getitem c ''id'' \<noteq> Inr (JStr card_id)) \<longrightarrow>
            delete_card w card_id = (Inr (JObj [(''error'', JStr ''Card not found'')], 404), w))"
proof -
  let ?kept = "filter (\<lambda>c. py_getitem c ''id'' \<noteq> Inr (JStr card_id)) cards"
  have k: "keep_others card_id cards = Inr ?kept"
    using assms(3) by (rule keep_others_filter)
  note run = delete_card_run [OF assms(1) assms(2) k]
  have present: "delete_card w card_id
              = (Inr (JObj [(''success'', JBool True), (''totalCards'', JInt (int (length ?kept)))], 200),
                 w\<lparr>files := (files w)(DATA_FILE \<mapsto>
                      json_dumps (JObj (AList.update ''cards'' (JArr ?kept) d)))\<rparr>)
            \<and> length ?kept < length cards"
    if "\<exists>c \<in> set cards. py_getitem c ''id'' = Inr (JStr card_id)"
  proof -
    from that have lt: "length ?kept < length cards"
      by (auto intro: length_filter_less)
    then have "length ?kept \<noteq> length cards" by simp
    with run have "delete_card w card_id
         = (Inr (JObj [(''success'', JBool True), (''totalCards'', JInt (int (length ?kept)))], 200),
            save_cards w (JObj (AList.update ''cards'' (JArr ?kept) d)))"
      by simp
    with lt show ?thesis by (simp add: save_cards_def)
  qed
  have absent: "delete_card w card_id = (Inr (JObj [(''error'', JStr ''Card not found'')], 404), w)"
    if "\<forall>c \<in> set cards. py_getitem c ''id'' \<noteq> Inr (JStr card_id)"
  proof -
    from that have "?kept = cards" by (simp add: filter_id_conv)
    then have "length ?kept = length cards" by simp
    with run show ?thesis by (simp add: error_response_def)
  qed
  from present absent show ?thesis by blast
qed

theorem delete_card_semantics_witness:
  "delete_card catalog_world ''face-king-00000000''
     = (Inr (JObj [(''success'', JBool True), (''totalCards'', JInt 2)], 200),
        save_cards example_world reduced_catalog)
   \<and> delete_card catalog_world ''bird-12345678''
     = (Inr (JObj [(''error'', JStr ''Card not found'')], 404), catalog_world)"
proof -
  let ?cards = "[new_card ''dog-deadbeef'' ''DOG'' ''https://img.example/1/public'' ''number'',
                 new_card ''face-king-00000000'' ''KING'' ''https://img.example/2/public'' ''face'',
                 new_card ''cat-0badcafe'' ''CAT'' ''https://img.example/3/public'' ''number'']"
  have l: "load_cards catalog_world = Inr (JObj [(''cards'', JArr ?cards)])"
    using load_catalog_world by (simp add: example_catalog_def)
  have m: "map_of [(''cards'', JArr ?cards)] ''cards'' = Some (JArr ?cards)"
    by simp
  have i: "\<forall>c \<in> set ?cards. \<exists>i. py_getitem c ''id'' = Inr i"
    by (simp add: new_card_def py_getitem_def)
  note T = delete_card_semantics [OF l m i]
  have 1: "delete_card catalog_world ''face-king-00000000''
     = (Inr (JObj [(''success'', JBool True), (''totalCards'', JInt 2)], 200),
        save_cards example_world reduced_catalog)"
    using T [of "''face-king-00000000''"]
    by (simp add: new_card_def py_getitem_def catalog_world_def save_cards_def reduced_catalog_def)
  have 2: "delete_card catalog_world ''bird-12345678''
     = (Inr (JObj [(''error'', JStr ''Card not found'')], 404), catalog_world)"
    using T [of "''bird-12345678''"]
    by (simp add: new_card_def py_getitem_def)
  from 1 2 show ?thesis by simp
qed

subsection \<open>Process-number-card endpoint\<close>









subsection \<open>Process-face-card endpoint\<close>




subsection \<open>Cancelling at the prompt of the scripts\<close>








subsection \<open>Catalog save/load round trip\<close>

text \<open>
  Reading back what \<^const>\<open>dumps\<close> wrote: first strings, then integers, then the loops of
  arrays and objects, then whole values by induction. The recursion limit of the interpreter
  and its limit on the digits of an integer are not part of the model.
\<close>

lemma hex_val_hex_digit: "k < 16 \<Longrightarrow> hex_val (hex_digit k) = Some k"
proof -
  assume k: "k < 16"
  have "list_all (\<lambda>k. hex_val (hex_digit k) = Some k) [0..<16]" by code_simp
  with k show ?thesis by (simp add: list_all_iff)
qed

lemma hex4_escape:
  assumes "n < 256"
  shows "hex4 CHR ''0'' CHR ''0'' (hex_digit (n div 16)) (hex_digit (n mod 16)) = Some n"
proof -
  from assms have a: "n div 16 < 16" by simp
  have b: "n mod 16 < 16" by simp
  have z: "hex_val CHR ''0'' = Some 0" by (simp add: hex_val_def)
  show ?thesis
    by (simp add: hex4_def z hex_val_hex_digit [OF a] hex_val_hex_digit [OF b])
qed

lemma scanstring_escape_chr:
  "scanstring (escape_chr c @ rest) = cons_chr c (scanstring rest)"
proof -
  let ?n = "of_char c :: nat"
  have n: "?n < 256" by simp
  consider (q) "c = CHR 0x22" | (b) "c = CHR 0x5C" | (nl) "c = CHR 0x0A" | (cr) "c = CHR 0x0D"
    | (tab) "c = CHR 0x09" | (bs) "c = CHR 0x08" | (ff) "c = CHR 0x0C"
    | (u) "c \<noteq> CHR 0x22" "c \<noteq> CHR 0x5C" "c \<noteq> CHR 0x0A" "c \<noteq> CHR 0x0D" "c \<noteq> CHR 0x09"
          "c \<noteq> CHR 0x08" "c \<noteq> CHR 0x0C" "?n < 32 \<or> 126 < ?n"
    | (p) "c \<noteq> CHR 0x22" "c \<noteq> CHR 0x5C" "\<not> (?n < 32 \<or> 126 < ?n)"
          "c \<noteq> CHR 0x0A" "c \<noteq> CHR 0x0D" "c \<noteq> CHR 0x09" "c \<noteq> CHR 0x08" "c \<noteq> CHR 0x0C"
    by blast
  then show ?thesis
  proof cases
    case q then show ?thesis by (simp add: escape_chr_def unescape_def)
  next
    case b then show ?thesis by (simp add: escape_chr_def unescape_def)
  next
    case nl then show ?thesis by (simp add: escape_chr_def unescape_def)
  next
    case cr then show ?thesis by (simp add: escape_chr_def unescape_def)
  next
    case tab then show ?thesis by (simp add: escape_chr_def unescape_def)
  next
    case bs then show ?thesis by (simp add: escape_chr_def unescape_def)
  next
    case ff then show ?thesis by (simp add: escape_chr_def unescape_def)
  next
    case u
    then have e: "escape_chr c = [CHR 0x5C, CHR ''u'', CHR ''0'', CHR ''0'', hex_digit (?n div 16), hex_digit (?n mod 16)]"
      by (simp add: escape_chr_def Let_def)
    show ?thesis
      by (simp add: e hex4_escape [OF n])
  next
    case p
    then have e: "escape_chr c = [c]"
      by (simp add: escape_chr_def Let_def)
    from p show ?thesis
      by (simp add: e)
  qed
qed

lemma scanstring_closing: "scanstring (CHR 0x22 # rest) = Inr ([], rest)"
  by simp

lemma scanstring_escaped:
  "scanstring (concat (map escape_chr s) @ CHR 0x22 # rest) = Inr (s, rest)"
  by (induction s) (simp_all add: scanstring_escape_chr scanstring_closing cons_chr_def del: scanstring.simps(2))

lemma digit_val_char_of: "d < 10 \<Longrightarrow> digit_val (char_of (48 + d)) = (d :: nat)"
  by (simp add: digit_val_def)

lemma is_digit_char_of: "(d :: nat) < 10 \<Longrightarrow> is_digit (char_of (48 + d))"
  by (simp add: is_digit_def)

lemma char_of_digit_zero: "(d :: nat) < 10 \<Longrightarrow> char_of (48 + d) = CHR ''0'' \<longleftrightarrow> d = 0"
  by (simp add: char_of_eq_iff take_bit_eq_mod)

lemma nat_of_digits_snoc: "nat_of_digits (ds @ [c]) = 10 * nat_of_digits ds + digit_val c"
  by (simp add: nat_of_digits_def)

lemma nat_of_digits_str_nat: "nat_of_digits (str_nat n) = n"
proof (induction n rule: str_nat.induct)
  case (1 n)
  show ?case
  proof (cases "n < 10")
    case True
    then show ?thesis
      by (simp add: str_nat.simps [of n] nat_of_digits_def digit_val_char_of)
  next
    case False
    with 1 have "nat_of_digits (str_nat (n div 10)) = n div 10" by simp
    with False show ?thesis
      by (simp add: str_nat.simps [of n] nat_of_digits_snoc digit_val_char_of)
  qed
qed

lemma str_nat_digits: "list_all is_digit (str_nat n) \<and> str_nat n \<noteq> []"
proof (induction n rule: str_nat.induct)
  case (1 n)
  show ?case
  proof (cases "n < 10")
    case True
    then show ?thesis
      by (simp add: str_nat.simps [of n] is_digit_char_of)
  next
    case False
    with 1 show ?thesis
      by (simp add: str_nat.simps [of n] is_digit_char_of)
  qed
qed

lemma str_nat_zero: "str_nat 0 = ''0''"
  using char_of_digit_zero [of 0] by (simp add: str_nat.simps [of 0])

lemma str_nat_hd: "0 < n \<Longrightarrow> hd (str_nat n) \<noteq> CHR ''0''"
proof (induction n rule: str_nat.induct)
  case (1 n)
  show ?case
  proof (cases "n < 10")
    case True
    with 1(2) show ?thesis
      by (simp add: str_nat.simps [of n] char_of_digit_zero)
  next
    case False
    then have "0 < n div 10" by simp
    with 1 False have "hd (str_nat (n div 10)) \<noteq> CHR ''0''" by simp
    with False str_nat_digits [of "n div 10"] show ?thesis
      by (simp add: str_nat.simps [of n])
  qed
qed

lemma not_digit_letters:
  "is_digit d \<Longrightarrow> d \<noteq> CHR ''N'' \<and> d \<noteq> CHR ''I'' \<and> d \<noteq> CHR ''-'' \<and> d \<noteq> CHR 0x22
     \<and> d \<noteq> CHR ''{'' \<and> d \<noteq> CHR ''['' \<and> d \<noteq> CHR ''n'' \<and> d \<noteq> CHR ''t'' \<and> d \<noteq> CHR ''f''"
  by (auto simp add: is_digit_def)

lemma scan_number_digits:
  assumes "is_digit d" and "list_all is_digit ds" and "d = CHR ''0'' \<longrightarrow> ds = []"
    and "rest = [] \<or> hd rest = CHR '','' \<or> hd rest = CHR 0x0A"
  shows "scan_number (d # ds @ rest) = Inr (JInt (int (nat_of_digits (d # ds))), rest)"
proof -
  from assms(4) have t: "takeWhile is_digit rest = []" and dr: "dropWhile is_digit rest = rest"
    by (cases rest; auto simp add: is_digit_def)+
  from assms(4) have nf: "\<not> is_float_tail rest"
    by (cases rest) (auto simp add: is_float_tail_def split: list.splits)
  from assms(2) have tw: "takeWhile is_digit (ds @ rest) = ds"
    by (simp add: takeWhile_append2 list_all_iff t)
  from assms(2) have dw: "dropWhile is_digit (ds @ rest) = rest"
    by (simp add: dropWhile_append2 list_all_iff dr)
  from not_digit_letters [OF assms(1)] have l: "d \<noteq> CHR ''N''" "d \<noteq> CHR ''I''" "d \<noteq> CHR ''-''"
    by simp_all
  show ?thesis
    using assms(1) assms(3) l nf
    by (simp add: scan_number_def Let_def tw dw)
qed

lemma scan_number_minus_digits:
  assumes "is_digit d" and "list_all is_digit ds" and "d = CHR ''0'' \<longrightarrow> ds = []"
    and "rest = [] \<or> hd rest = CHR '','' \<or> hd rest = CHR 0x0A"
  shows "scan_number (CHR ''-'' # d # ds @ rest) = Inr (JInt (- int (nat_of_digits (d # ds))), rest)"
proof -
  from assms(4) have t: "takeWhile is_digit rest = []" and dr: "dropWhile is_digit rest = rest"
    by (cases rest; auto simp add: is_digit_def)+
  from assms(4) have nf: "\<not> is_float_tail rest"
    by (cases rest) (auto simp add: is_float_tail_def split: list.splits)
  from assms(2) have tw: "takeWhile is_digit (ds @ rest) = ds"
    by (simp add: takeWhile_append2 list_all_iff t)
  from assms(2) have dw: "dropWhile is_digit (ds @ rest) = rest"
    by (simp add: dropWhile_append2 list_all_iff dr)
  from not_digit_letters [OF assms(1)] have l: "d \<noteq> CHR ''N''" "d \<noteq> CHR ''I''" "d \<noteq> CHR ''-''"
    by simp_all
  show ?thesis
    using assms(1) assms(3) l nf
    by (simp add: scan_number_def Let_def tw dw)
qed

lemma str_nat_shape:
  "\<exists>d ds. str_nat n = d # ds \<and> is_digit d \<and> list_all is_digit ds \<and> (d = CHR ''0'' \<longrightarrow> ds = [])"
proof (cases "n = 0")
  case True
  then show ?thesis by (simp add: str_nat_zero is_digit_def)
next
  case False
  then have "hd (str_nat n) \<noteq> CHR ''0''" by (simp add: str_nat_hd)
  with str_nat_digits [of n] show ?thesis
    by (cases "str_nat n") auto
qed

lemma scan_number_str_int:
  assumes "rest = [] \<or> hd rest = CHR '','' \<or> hd rest = CHR 0x0A"
  shows "scan_number (str_int i @ rest) = Inr (JInt i, rest)"
proof (cases "i < 0")
  case True
  obtain d ds where s: "str_nat (nat (- i)) = d # ds" and d: "is_digit d" "list_all is_digit ds"
    "d = CHR ''0'' \<longrightarrow> ds = []"
    using str_nat_shape [of "nat (- i)"] by blast
  have "nat_of_digits (d # ds) = nat (- i)"
    using nat_of_digits_str_nat [of "nat (- i)"] by (simp add: s)
  with True scan_number_minus_digits [OF d assms] show ?thesis
    by (simp add: str_int_def s)
next
  case False
  obtain d ds where s: "str_nat (nat i) = d # ds" and d: "is_digit d" "list_all is_digit ds"
    "d = CHR ''0'' \<longrightarrow> ds = []"
    using str_nat_shape [of "nat i"] by blast
  have "nat_of_digits (d # ds) = nat i"
    using nat_of_digits_str_nat [of "nat i"] by (simp add: s)
  with False scan_number_digits [OF d assms] show ?thesis
    by (simp add: str_int_def s)
qed

lemma parse_value_str_int:
  assumes "rest = [] \<or> hd rest = CHR '','' \<or> hd rest = CHR 0x0A"
  shows "parse_value (Suc n) (str_int i @ rest) = Inr (JInt i, rest)"
proof -
  have "\<exists>c cs. str_int i @ rest = c # cs \<and> (is_digit c \<or> c = CHR ''-'')"
    using str_nat_shape [of "nat i"] str_nat_shape [of "nat (- i)"]
    by (auto simp add: str_int_def)
  then obtain c cs where s: "str_int i @ rest = c # cs" and c: "is_digit c \<or> c = CHR ''-''"
    by blast
  from c have n: "c \<noteq> CHR 0x22" "c \<noteq> CHR ''{''" "c \<noteq> CHR ''[''" "c \<noteq> CHR ''n''" "c \<noteq> CHR ''t''"
    "c \<noteq> CHR ''f''"
    using not_digit_letters [of c] by auto
  have "parse_value (Suc n) (c # cs) = scan_number (c # cs)"
    using n by simp
  with scan_number_str_int [OF assms, of i] show ?thesis
    by (simp add: s)
qed

lemma skip_ws_newline_indent: "skip_ws (newline_indent l @ s) = skip_ws s"
  by (simp add: skip_ws_def newline_indent_def is_ws_def dropWhile_append)

lemma skip_ws_keep: "\<not> is_ws c \<Longrightarrow> skip_ws (c # s) = c # s"
  by (simp add: skip_ws_def)

lemma skip_ws_space: "skip_ws (CHR '' '' # s) = skip_ws s"
  by (simp add: skip_ws_def is_ws_def)

lemma dumps_head:
  "\<exists>c cs. dumps lvl v = c # cs \<and> \<not> is_ws c \<and> c \<noteq> CHR '']''"
proof (cases v)
  case JNull
  then show ?thesis by (simp add: is_ws_def)
next
  case (JBool b)
  then show ?thesis by (simp add: is_ws_def)
next
  case (JInt i)
  have "\<exists>c cs. str_int i = c # cs \<and> (is_digit c \<or> c = CHR ''-'')"
    using str_nat_shape [of "nat i"] str_nat_shape [of "nat (- i)"]
    by (auto simp add: str_int_def)
  then obtain c cs where "str_int i = c # cs" and "is_digit c \<or> c = CHR ''-''" by blast
  with JInt show ?thesis by (auto simp add: is_ws_def is_digit_def)
next
  case (JStr s)
  then show ?thesis by (simp add: quote_def is_ws_def)
next
  case (JArr xs)
  then show ?thesis by (simp add: is_ws_def)
next
  case (JObj d)
  then show ?thesis by (simp add: is_ws_def)
qed

lemma skip_ws_dumps: "skip_ws (dumps lvl v @ s) = dumps lvl v @ s"
  using dumps_head [of lvl v] by (auto simp add: skip_ws_keep)

lemma dumps_not_closing: "\<exists>c cs. dumps lvl v @ s = c # cs \<and> c \<noteq> CHR '']''"
  using dumps_head [of lvl v] by auto

lemma join_Cons: "ys \<noteq> [] \<Longrightarrow> join sep (y # ys) = y @ sep @ join sep ys"
  by (cases ys) simp_all

lemma join_map_head:
  "xs \<noteq> [] \<Longrightarrow> \<exists>t. join sep (map f xs) = f (hd xs) @ t"
  by (cases xs; cases "tl xs") auto

lemma dict_of_acc:
  "distinct (map fst (acc @ d)) \<Longrightarrow>
     foldl (\<lambda>d kv. AList.update (fst kv) (snd kv) d) acc d = acc @ d"
proof (induction d arbitrary: acc)
  case Nil
  then show ?case by simp
next
  case (Cons kv d)
  from Cons.prems have "fst kv \<notin> fst ` set acc" by auto
  then have u: "AList.update (fst kv) (snd kv) acc = acc @ [kv]"
    by (induction acc) auto
  from Cons.prems have "distinct (map fst ((acc @ [kv]) @ d))" by simp
  from Cons.IH [OF this] show ?case by (simp add: u)
qed

lemma dict_of_distinct: "distinct (map fst d) \<Longrightarrow> dict_of d = d"
  using dict_of_acc [of "[]" d] by (simp add: dict_of_def)

lemma parse_elems_join:
  assumes "xs \<noteq> []"
    and "\<forall>x \<in> set xs. \<forall>r. (r = [] \<or> hd r = CHR '','' \<or> hd r = CHR 0x0A)
            \<longrightarrow> p (dumps L x @ r) = Inr (x, r)"
    and "length xs \<le> k"
  shows "parse_elems p k (join (CHR '','' # newline_indent L) (map (dumps L) xs)
            @ newline_indent lvl @ CHR '']'' # rest) = Inr (xs, rest)"
  using assms
proof (induction xs arbitrary: k rule: list_nonempty_induct)
  case (single x)
  then obtain k' where k: "k = Suc k'" by (cases k) auto
  have h: "hd (newline_indent lvl @ CHR '']'' # rest) = CHR 0x0A"
    by (simp add: newline_indent_def)
  from single h have p: "p (dumps L x @ newline_indent lvl @ CHR '']'' # rest)
      = Inr (x, newline_indent lvl @ CHR '']'' # rest)"
    by simp
  have s: "skip_ws (newline_indent lvl @ CHR '']'' # rest) = CHR '']'' # rest"
    by (simp add: skip_ws_newline_indent skip_ws_keep is_ws_def)
  show ?case
    by (simp add: k p s)
next
  case (cons x xs)
  then obtain k' where k: "k = Suc k'" and k': "length xs \<le> k'" by (cases k) auto
  let ?tail = "join (CHR '','' # newline_indent L) (map (dumps L) xs) @ newline_indent lvl @ CHR '']'' # rest"
  from cons.hyps have j: "join (CHR '','' # newline_indent L) (dumps L x # map (dumps L) xs)
      = dumps L x @ CHR '','' # newline_indent L @ join (CHR '','' # newline_indent L) (map (dumps L) xs)"
    using join_Cons [of "map (dumps L) xs" "CHR '','' # newline_indent L" "dumps L x"] by simp
  from cons.prems have p: "p (dumps L x @ CHR '','' # newline_indent L @ ?tail)
      = Inr (x, CHR '','' # newline_indent L @ ?tail)"
    by simp
  have s1: "skip_ws (CHR '','' # newline_indent L @ ?tail) = CHR '','' # newline_indent L @ ?tail"
    by (simp add: skip_ws_keep is_ws_def)
  from cons.hyps obtain t where t: "join (CHR '','' # newline_indent L) (map (dumps L) xs) = dumps L (hd xs) @ t"
    using join_map_head by blast
  have s2: "skip_ws (newline_indent L @ ?tail) = ?tail"
  proof -
    have "skip_ws (newline_indent L @ ?tail) = skip_ws ?tail"
      by (rule skip_ws_newline_indent)
    moreover have e: "?tail = dumps L (hd xs) @ (t @ newline_indent lvl @ CHR '']'' # rest)"
      using t by simp
    moreover have "skip_ws (dumps L (hd xs) @ (t @ newline_indent lvl @ CHR '']'' # rest))
        = dumps L (hd xs) @ (t @ newline_indent lvl @ CHR '']'' # rest)"
      by (rule skip_ws_dumps)
    ultimately show ?thesis by metis
  qed
  from cons.prems have "\<forall>x \<in> set xs. \<forall>r. (r = [] \<or> hd r = CHR '','' \<or> hd r = CHR 0x0A)
            \<longrightarrow> p (dumps L x @ r) = Inr (x, r)" by simp
  from cons.IH [OF this k'] have ih: "parse_elems p k' ?tail = Inr (xs, rest)" .
  show ?case
    by (simp add: k j p s1 s2 ih)
qed

lemma parse_members_last:
  assumes "p (dumps L v @ newline_indent lvl @ CHR ''}'' # rest)
             = Inr (v, newline_indent lvl @ CHR ''}'' # rest)"
  shows "parse_members p (Suc k)
           (concat (map escape_chr key) @ CHR 0x22 # CHR '':'' # CHR '' '' # dumps L v
              @ newline_indent lvl @ CHR ''}'' # rest)
         = Inr ([(key, v)], rest)"
proof -
  let ?cont = "newline_indent lvl @ CHR ''}'' # rest"
  have a: "scanstring (concat (map escape_chr key) @ CHR 0x22 # CHR '':'' # CHR '' '' # dumps L v @ ?cont)
      = Inr (key, CHR '':'' # CHR '' '' # dumps L v @ ?cont)"
    by (rule scanstring_escaped)
  have c: "skip_ws (CHR '':'' # CHR '' '' # dumps L v @ ?cont) = CHR '':'' # CHR '' '' # dumps L v @ ?cont"
    by (simp add: skip_ws_keep is_ws_def)
  have v: "skip_ws (CHR '' '' # dumps L v @ ?cont) = dumps L v @ ?cont"
    by (simp add: skip_ws_space skip_ws_dumps)
  have s: "skip_ws ?cont = CHR ''}'' # rest"
    by (simp add: skip_ws_newline_indent skip_ws_keep is_ws_def)
  show ?thesis
    unfolding parse_members.simps a
    by (simp add: c v assms s)
qed

lemma parse_members_more:
  assumes "p (dumps L v @ CHR '','' # newline_indent L @ CHR 0x22 # nxt)
             = Inr (v, CHR '','' # newline_indent L @ CHR 0x22 # nxt)"
    and "parse_members p k nxt = Inr (kvs, rest)"
  shows "parse_members p (Suc k)
           (concat (map escape_chr key) @ CHR 0x22 # CHR '':'' # CHR '' '' # dumps L v
              @ CHR '','' # newline_indent L @ CHR 0x22 # nxt)
         = Inr ((key, v) # kvs, rest)"
proof -
  let ?cont = "CHR '','' # newline_indent L @ CHR 0x22 # nxt"
  have a: "scanstring (concat (map escape_chr key) @ CHR 0x22 # CHR '':'' # CHR '' '' # dumps L v @ ?cont)
      = Inr (key, CHR '':'' # CHR '' '' # dumps L v @ ?cont)"
    by (rule scanstring_escaped)
  have c: "skip_ws (CHR '':'' # CHR '' '' # dumps L v @ ?cont) = CHR '':'' # CHR '' '' # dumps L v @ ?cont"
    by (simp add: skip_ws_keep is_ws_def)
  have v: "skip_ws (CHR '' '' # dumps L v @ ?cont) = dumps L v @ ?cont"
    by (simp add: skip_ws_space skip_ws_dumps)
  have s1: "skip_ws ?cont = ?cont"
    by (simp add: skip_ws_keep is_ws_def)
  have s2: "skip_ws (newline_indent L @ CHR 0x22 # nxt) = CHR 0x22 # nxt"
    by (simp add: skip_ws_newline_indent skip_ws_keep is_ws_def)
  show ?thesis
    unfolding parse_members.simps a
    by (simp add: c v assms s1 s2)
qed

lemma parse_members_join:
  assumes "d \<noteq> []"
    and "\<forall>kv \<in> set d. \<forall>r. (r = [] \<or> hd r = CHR '','' \<or> hd r = CHR 0x0A)
            \<longrightarrow> p (dumps L (snd kv) @ r) = Inr (snd kv, r)"
    and "length d \<le> k"
  shows "parse_members p k
           (tl (join (CHR '','' # newline_indent L)
                  (map (\<lambda>kv. quote (fst kv) @ CHR '':'' # CHR '' '' # dumps L (snd kv)) d))
            @ newline_indent lvl @ CHR ''}'' # rest) = Inr (d, rest)"
  using assms
proof (induction d arbitrary: k rule: list_nonempty_induct)
  case (single kv)
  then obtain k' where k: "k = Suc k'" by (cases k) auto
  let ?fin = "newline_indent lvl @ CHR ''}'' # rest"
  have shape: "tl (join (CHR '','' # newline_indent L)
                  (map (\<lambda>kv. quote (fst kv) @ CHR '':'' # CHR '' '' # dumps L (snd kv)) [kv])) @ ?fin
      = concat (map escape_chr (fst kv)) @ CHR 0x22 # CHR '':'' # CHR '' '' # dumps L (snd kv) @ ?fin"
    by (simp add: quote_def)
  have h: "hd ?fin = CHR 0x0A"
    by (simp add: newline_indent_def)
  from single.prems(1) h have p: "p (dumps L (snd kv) @ ?fin) = Inr (snd kv, ?fin)"
    by simp
  from parse_members_last [where p = p and L = L and v = "snd kv" and lvl = lvl and rest = rest
      and k = k' and key = "fst kv", OF p] show ?case
    unfolding shape k by simp
next
  case (cons kv d)
  then obtain k' where k: "k = Suc k'" and k': "length d \<le> k'" by (cases k) auto
  let ?m = "\<lambda>kv. quote (fst kv) @ CHR '':'' # CHR '' '' # dumps L (snd kv)"
  let ?sep = "CHR '','' # newline_indent L"
  let ?fin = "newline_indent lvl @ CHR ''}'' # rest"
  have m_kv: "?m kv = CHR 0x22 # concat (map escape_chr (fst kv)) @ CHR 0x22 # CHR '':'' # CHR '' '' # dumps L (snd kv)"
    by (simp add: quote_def)
  from cons.hyps have jc: "join ?sep (map ?m (kv # d)) = ?m kv @ ?sep @ join ?sep (map ?m d)"
    using join_Cons [of "map ?m d" ?sep "?m kv"] by simp
  from cons.hyps obtain t where "join ?sep (map ?m d) = ?m (hd d) @ t"
    using join_map_head [of d ?sep ?m] by blast
  then obtain u where u: "join ?sep (map ?m d) = CHR 0x22 # u"
    by (simp add: quote_def)
  have shape: "tl (join ?sep (map ?m (kv # d))) @ ?fin
      = concat (map escape_chr (fst kv)) @ CHR 0x22 # CHR '':'' # CHR '' '' # dumps L (snd kv)
        @ CHR '','' # newline_indent L @ CHR 0x22 # (u @ ?fin)"
    unfolding jc m_kv u by simp
  from cons.prems(1) have p: "p (dumps L (snd kv) @ CHR '','' # newline_indent L @ CHR 0x22 # (u @ ?fin))
      = Inr (snd kv, CHR '','' # newline_indent L @ CHR 0x22 # (u @ ?fin))"
    by simp
  from cons.prems(1) have "\<forall>kv \<in> set d. \<forall>r. (r = [] \<or> hd r = CHR '','' \<or> hd r = CHR 0x0A)
            \<longrightarrow> p (dumps L (snd kv) @ r) = Inr (snd kv, r)" by simp
  from cons.IH [OF this k'] have "parse_members p k' (tl (join ?sep (map ?m d)) @ ?fin) = Inr (d, rest)" .
  then have ih: "parse_members p k' (u @ ?fin) = Inr (d, rest)"
    unfolding u by simp
  from parse_members_more [where p = p and L = L and v = "snd kv" and nxt = "u @ ?fin"
      and k = k' and kvs = d and rest = rest and key = "fst kv", OF p ih] show ?case
    unfolding shape k by simp
qed

lemma weight_pos: "0 < weight v"
  by (cases v) simp_all

lemma length_le_sum_weight: "length xs \<le> sum_list (map weight xs)"
proof (induction xs)
  case Nil
  then show ?case by simp
next
  case (Cons x xs)
  with weight_pos [of x] show ?case by simp
qed

lemma length_le_sum_weight_snd: "length d \<le> sum_list (map (\<lambda>kv. weight (snd kv)) d)"
proof (induction d)
  case Nil
  then show ?case by simp
next
  case (Cons kv d)
  with weight_pos [of "snd kv"] show ?case by simp
qed

lemma parse_value_array:
  assumes "xs \<noteq> []"
    and "parse_elems (parse_value m) m
           (join (CHR '','' # newline_indent (Suc lvl)) (map (dumps (Suc lvl)) xs)
              @ newline_indent lvl @ CHR '']'' # rest) = Inr (xs, rest)"
  shows "parse_value (Suc m) (dumps lvl (JArr xs) @ rest) = Inr (JArr xs, rest)"
proof -
  let ?J = "join (CHR '','' # newline_indent (Suc lvl)) (map (dumps (Suc lvl)) xs)"
  let ?fin = "newline_indent lvl @ CHR '']'' # rest"
  from assms(1) obtain t where t: "?J = dumps (Suc lvl) (hd xs) @ t"
    using join_map_head by blast
  obtain q r where qr: "dumps (Suc lvl) (hd xs) = q # r" and q: "\<not> is_ws q" "q \<noteq> CHR '']''"
    using dumps_head [of "Suc lvl" "hd xs"] by blast
  have J: "?J @ ?fin = q # (r @ t @ ?fin)"
    unfolding t qr by simp
  have s: "skip_ws (newline_indent (Suc lvl) @ ?J @ ?fin) = q # (r @ t @ ?fin)"
    unfolding skip_ws_newline_indent J using q(1) by (rule skip_ws_keep)
  from assms(2) have e: "parse_elems (parse_value m) m (q # (r @ t @ ?fin)) = Inr (xs, rest)"
    unfolding J .
  have d: "dumps lvl (JArr xs) @ rest = CHR ''['' # (newline_indent (Suc lvl) @ ?J @ ?fin)"
    using assms(1) by simp
  show ?thesis
    unfolding d parse_value.simps using q(2) by (simp add: s e)
qed

lemma parse_value_object:
  assumes "d \<noteq> []" and "distinct (map fst d)"
    and "parse_members (parse_value m) m
           (tl (join (CHR '','' # newline_indent (Suc lvl))
                  (map (\<lambda>kv. quote (fst kv) @ CHR '':'' # CHR '' '' # dumps (Suc lvl) (snd kv)) d))
              @ newline_indent lvl @ CHR ''}'' # rest) = Inr (d, rest)"
  shows "parse_value (Suc m) (dumps lvl (JObj d) @ rest) = Inr (JObj d, rest)"
proof -
  let ?m = "\<lambda>kv. quote (fst kv) @ CHR '':'' # CHR '' '' # dumps (Suc lvl) (snd kv)"
  let ?J = "join (CHR '','' # newline_indent (Suc lvl)) (map ?m d)"
  let ?fin = "newline_indent lvl @ CHR ''}'' # rest"
  from assms(1) obtain t where "?J = ?m (hd d) @ t"
    using join_map_head [of d "CHR '','' # newline_indent (Suc lvl)" ?m] by blast
  then obtain u where u: "?J = CHR 0x22 # u"
    by (simp add: quote_def)
  have s: "skip_ws (newline_indent (Suc lvl) @ ?J @ ?fin) = CHR 0x22 # (u @ ?fin)"
    unfolding skip_ws_newline_indent u by (simp add: skip_ws_keep is_ws_def)
  from assms(3) have e: "parse_members (parse_value m) m (u @ ?fin) = Inr (d, rest)"
    unfolding u by simp
  have dd: "dumps lvl (JObj d) @ rest = CHR ''{'' # (newline_indent (Suc lvl) @ ?J @ ?fin)"
    using assms(1) by simp
  show ?thesis
    unfolding dd parse_value.simps by (simp add: s e dict_of_distinct [OF assms(2)])
qed

lemma parse_value_dumps:
  assumes "wf_json v" and "weight v \<le> n"
    and "rest = [] \<or> hd rest = CHR '','' \<or> hd rest = CHR 0x0A"
  shows "parse_value n (dumps lvl v @ rest) = Inr (v, rest)"
  using assms
proof (induction v arbitrary: n lvl rest)
  case JNull
  then obtain m where "n = Suc m" by (cases n) auto
  then show ?case by simp
next
  case (JBool b)
  then obtain m where "n = Suc m" by (cases n) auto
  then show ?case by (cases b) simp_all
next
  case (JInt i)
  then obtain m where n: "n = Suc m" by (cases n) auto
  from parse_value_str_int [OF JInt.prems(3), of m i] show ?case
    by (simp add: n)
next
  case (JStr s)
  then obtain m where n: "n = Suc m" by (cases n) auto
  have "dumps lvl (JStr s) @ rest = CHR 0x22 # (concat (map escape_chr s) @ CHR 0x22 # rest)"
    by (simp add: quote_def)
  then show ?case
    unfolding n by (simp add: scanstring_escaped del: scanstring.simps)
next
  case (JArr xs)
  then obtain m where n: "n = Suc m" and m: "sum_list (map weight xs) \<le> m" by (cases n) auto
  show ?case
  proof (cases "xs = []")
    case True
    then show ?thesis by (simp add: n skip_ws_keep is_ws_def)
  next
    case False
    have items: "\<forall>x \<in> set xs. \<forall>r. (r = [] \<or> hd r = CHR '','' \<or> hd r = CHR 0x0A)
            \<longrightarrow> parse_value m (dumps (Suc lvl) x @ r) = Inr (x, r)"
    proof (intro ballI allI impI)
      fix x r
      assume x: "x \<in> set xs" and r: "r = [] \<or> hd r = CHR '','' \<or> hd r = CHR 0x0A"
      from x have "weight x \<le> sum_list (map weight xs)"
        by (simp add: member_le_sum_list)
      with m have w: "weight x \<le> m" by simp
      from JArr.prems(1) x have wf: "wf_json x" by simp
      from JArr.IH [OF x wf w r] show "parse_value m (dumps (Suc lvl) x @ r) = Inr (x, r)" .
    qed
    from m length_le_sum_weight [of xs] have len: "length xs \<le> m" by simp
    from parse_elems_join [OF False items len]
    have "parse_elems (parse_value m) m
           (join (CHR '','' # newline_indent (Suc lvl)) (map (dumps (Suc lvl)) xs)
              @ newline_indent lvl @ CHR '']'' # rest) = Inr (xs, rest)" .
    from parse_value_array [OF False this] show ?thesis
      unfolding n .
  qed
next
  case (JObj d)
  then obtain m where n: "n = Suc m" and m: "sum_list (map (\<lambda>kv. weight (snd kv)) d) \<le> m"
    by (cases n) auto
  show ?case
  proof (cases "d = []")
    case True
    then show ?thesis by (simp add: n skip_ws_keep is_ws_def)
  next
    case False
    from JObj.prems(1) have dist: "distinct (map fst d)" by simp
    have items: "\<forall>kv \<in> set d. \<forall>r. (r = [] \<or> hd r = CHR '','' \<or> hd r = CHR 0x0A)
            \<longrightarrow> parse_value m (dumps (Suc lvl) (snd kv) @ r) = Inr (snd kv, r)"
    proof (intro ballI allI impI)
      fix kv r
      assume kv: "kv \<in> set d" and r: "r = [] \<or> hd r = CHR '','' \<or> hd r = CHR 0x0A"
      from kv have "weight (snd kv) \<le> sum_list (map (\<lambda>kv. weight (snd kv)) d)"
        using member_le_sum_list [of "weight (snd kv)" "map (\<lambda>kv. weight (snd kv)) d"] by auto
      with m have w: "weight (snd kv) \<le> m" by simp
      from JObj.prems(1) kv have wf: "wf_json (snd kv)" by simp
      have sn: "snd kv \<in> Basic_BNFs.snds kv"
        by (cases kv) simp
      from JObj.IH [OF kv sn wf w r]
      show "parse_value m (dumps (Suc lvl) (snd kv) @ r) = Inr (snd kv, r)" .
    qed
    from m length_le_sum_weight_snd [of d] have len: "length d \<le> m" by simp
    from parse_members_join [OF False items len]
    have "parse_members (parse_value m) m
           (tl (join (CHR '','' # newline_indent (Suc lvl))
                  (map (\<lambda>kv. quote (fst kv) @ CHR '':'' # CHR '' '' # dumps (Suc lvl) (snd kv)) d))
              @ newline_indent lvl @ CHR ''}'' # rest) = Inr (d, rest)" .
    from parse_value_object [OF False dist this] show ?thesis
      unfolding n .
  qed
qed

lemma length_join: "sum_list (map length ys) \<le> length (join sep ys)"
  by (induction sep ys rule: join.induct) simp_all

lemma weight_le_length: "weight v \<le> length (dumps lvl v)"
proof (induction v arbitrary: lvl)
  case JNull
  then show ?case by simp
next
  case (JBool b)
  then show ?case by simp
next
  case (JInt i)
  obtain c cs where "dumps lvl (JInt i) = c # cs"
    using dumps_head [of lvl "JInt i"] by blast
  then show ?case by simp
next
  case (JStr s)
  then show ?case by (simp add: quote_def)
next
  case (JArr xs)
  have "sum_list (map weight xs) \<le> sum_list (map (\<lambda>x. length (dumps (Suc lvl) x)) xs)"
    using JArr.IH by (intro sum_list_mono) simp
  also have "\<dots> = sum_list (map length (map (dumps (Suc lvl)) xs))"
    by (simp add: comp_def)
  also have "\<dots> \<le> length (join (CHR '','' # newline_indent (Suc lvl)) (map (dumps (Suc lvl)) xs))"
    by (rule length_join)
  finally show ?case by simp
next
  case (JObj d)
  let ?m = "\<lambda>kv. quote (fst kv) @ CHR '':'' # CHR '' '' # dumps (Suc lvl) (snd kv)"
  have "sum_list (map (\<lambda>kv. weight (snd kv)) d) \<le> sum_list (map (\<lambda>kv. length (?m kv)) d)"
  proof (intro sum_list_mono)
    fix kv
    assume kv: "kv \<in> set d"
    have "snd kv \<in> Basic_BNFs.snds kv" by (cases kv) simp
    from JObj.IH [OF kv this, of "Suc lvl"] show "weight (snd kv) \<le> length (?m kv)" by simp
  qed
  also have "\<dots> = sum_list (map length (map ?m d))"
    by (simp add: comp_def)
  also have "\<dots> \<le> length (join (CHR '','' # newline_indent (Suc lvl)) (map ?m d))"
    by (rule length_join)
  finally show ?case by simp
qed

lemma json_loads_dumps:
  assumes "wf_json v"
  shows "json_loads (json_dumps v) = Inr v"
proof -
  have s: "skip_ws (json_dumps v) = json_dumps v"
    using skip_ws_dumps [of 0 v "[]"] by (simp add: json_dumps_def)
  have w: "weight v \<le> Suc (length (json_dumps v))"
    using weight_le_length [of v 0] by (simp add: json_dumps_def)
  have "parse_value (Suc (length (json_dumps v))) (dumps 0 v @ []) = Inr (v, [])"
    using assms w by (rule parse_value_dumps) simp
  then have "parse_value (Suc (length (json_dumps v))) (json_dumps v) = Inr (v, [])"
    by (simp add: json_dumps_def)
  then show ?thesis
    unfolding json_loads_def s by (simp add: skip_ws_def)
qed

lemma wf_catalog_json: "wf_json (catalog_json cs)"
  by (simp add: catalog_json_def card_json_def new_card_def)

text \<open>
  C8: for every list of card records, empty, single or longer, and every world, saving the
  catalog of these records with \<^const>\<open>save_cards\<close> and reading it back with
  \<^const>\<open>load_cards\<close> returns the same catalog: the same records in the same order, each
  with the same four fields.
\<close>

theorem catalog_round_trip:
  "load_cards (save_cards w (catalog_json cs)) = Inr (catalog_json cs)
   \<and> catalog_json cs = JObj [(''cards'', JArr (map (\<lambda>c.
        JObj [(''id'', JStr (rec_id c)), (''word'', JStr (rec_word c)),
              (''imageUrl'', JStr (rec_image_url c)), (''type'', JStr (rec_type c))]) cs))]"
proof -
  have "load_cards (save_cards w (catalog_json cs)) = json_loads (json_dumps (catalog_json cs))"
    by (simp add: load_cards_def save_cards_def)
  with json_loads_dumps [OF wf_catalog_json, of cs] show ?thesis
    by (simp add: catalog_json_def card_json_def new_card_def)
qed

theorem catalog_round_trip_witness:
  "load_cards (save_cards example_world (catalog_json [])) = Inr (JObj [(''cards'', JArr [])])
   \<and> load_cards (save_cards example_world
         (catalog_json [\<lparr> rec_id = ''dog-deadbeef'', rec_word = ''DOG'',
                          rec_image_url = ''https://img.example/1/public'', rec_type = ''number'' \<rparr>]))
       = Inr (JObj [(''cards'', JArr [new_card ''dog-deadbeef'' ''DOG'' ''https://img.example/1/public'' ''number''])])
   \<and> load_cards (save_cards example_world
         (catalog_json [\<lparr> rec_id = ''dog-deadbeef'', rec_word = ''DOG'',
                          rec_image_url = ''https://img.example/1/public'', rec_type = ''number'' \<rparr>,
                        \<lparr> rec_id = ''face-king-00000000'', rec_word = ''KING'',
                          rec_image_url = ''https://img.example/2/public'', rec_type = ''face'' \<rparr>,
                        \<lparr> rec_id = ''cat-0badcafe'', rec_word = ''CAT'',
                          rec_image_url = ''https://img.example/3/public'', rec_type = ''number'' \<rparr>]))
       = Inr example_catalog"
  using catalog_round_trip [of example_world "[]"]
    catalog_round_trip [of example_world
      "[\<lparr> rec_id = ''dog-deadbeef'', rec_word = ''DOG'',
          rec_image_url = ''https://img.example/1/public'', rec_type = ''number'' \<rparr>]"]
    catalog_round_trip [of example_world
      "[\<lparr> rec_id = ''dog-deadbeef'', rec_word = ''DOG'',
          rec_image_url = ''https://img.example/1/public'', rec_type = ''number'' \<rparr>,
        \<lparr> rec_id = ''face-king-00000000'', rec_word = ''KING'',
          rec_image_url = ''https://img.example/2/public'', rec_type = ''face'' \<rparr>,
        \<lparr> rec_id = ''cat-0badcafe'', rec_word = ''CAT'',
          rec_image_url = ''https://img.example/3/public'', rec_type = ''number'' \<rparr>]"]
  by (simp add: example_catalog_def catalog_json_def card_json_def new_card_def)

end
